theory Spec2Isabelle
  imports Complex_Main "HOL-Library.Sublist"
begin

section \<open>JavaScript values\<close>

text \<open>
  The module \<^verbatim>\<open>src/lib/github.js\<close> handles JSON payloads of the provider and stores them
  in a cache. Values are modelled by their JSON shape; an object keeps its properties in
  insertion order, the first binding of a key being the property. Numbers are the integers
  (ids, page numbers, status codes).
\<close>

datatype jsval =
    JUndefined
  | JNull
  | JBool bool
  | JNum int
  | JStr string
  | JArr "jsval list"
  | JObj "(string \<times> jsval) list"

datatype error =
    TypeError            \<comment> \<open>a runtime TypeError of the language\<close>
  | Rejected string      \<comment> \<open>a rejection by the provider or the transport\<close>
  | Error string         \<comment> \<open>\<^verbatim>\<open>new Error(message)\<close>\<close>

text \<open>Truthiness, as tested by \<^verbatim>\<open>if (x)\<close>, \<^verbatim>\<open>!x\<close>, \<^verbatim>\<open>x || y\<close> and \<^verbatim>\<open>x && y\<close>.\<close>

fun truthy :: "jsval \<Rightarrow> bool" where
  "truthy JUndefined = False"
| "truthy JNull = False"
| "truthy (JBool b) = b"
| "truthy (JNum n) = (n \<noteq> 0)"
| "truthy (JStr s) = (s \<noteq> [])"
| "truthy (JArr xs) = True"
| "truthy (JObj kvs) = True"

definition js_or :: "jsval \<Rightarrow> jsval \<Rightarrow> jsval" where
  "js_or a b = (if truthy a then a else b)"

text \<open>Reading a property of an object literal or of a picked object.\<close>

definition get_field :: "(string \<times> jsval) list \<Rightarrow> string \<Rightarrow> jsval" where
  "get_field kvs k = (case map_of kvs k of None \<Rightarrow> JUndefined | Some v \<Rightarrow> v)"

text \<open>
  \<^verbatim>\<open>x.k\<close> on any value, for the property names this module reads (\<^verbatim>\<open>login\<close>,
  \<^verbatim>\<open>type\<close>, \<^verbatim>\<open>fork\<close>, \<^verbatim>\<open>private\<close>, \<^verbatim>\<open>owner\<close>, \<^verbatim>\<open>name\<close>,
  \<^verbatim>\<open>full_name\<close>, \<^verbatim>\<open>default_branch\<close>, \<^verbatim>\<open>content\<close>): reading from
  \<^verbatim>\<open>undefined\<close> or \<^verbatim>\<open>null\<close> throws, primitives and arrays have none of these.
\<close>

fun get_prop :: "jsval \<Rightarrow> string \<Rightarrow> error + jsval" where
  "get_prop JUndefined k = Inl TypeError"
| "get_prop JNull k = Inl TypeError"
| "get_prop (JObj kvs) k = Inr (get_field kvs k)"
| "get_prop v k = Inr JUndefined"

text \<open>Assignment \<^verbatim>\<open>obj.k = v\<close>: an existing property keeps its place, a new one goes last.\<close>

fun assign :: "(string \<times> jsval) list \<Rightarrow> string \<Rightarrow> jsval \<Rightarrow> (string \<times> jsval) list" where
  "assign [] k v = [(k, v)]"
| "assign (p # ps) k v = (if fst p = k then (k, v) # ps else p # assign ps k v)"

text \<open>
  String conversion, as performed by a template literal \<^verbatim>\<open>`${x}`\<close>; an integer is printed
  in plain decimal (as the language does below \<open>10\<^sup>2\<^sup>1\<close>).
\<close>

definition digit :: "nat \<Rightarrow> char" where
  "digit n = char_of (48 + n)"

fun digits :: "nat \<Rightarrow> string" where
  "digits n = (if n < 10 then [digit n] else digits (n div 10) @ [digit (n mod 10)])"

fun join_comma :: "string list \<Rightarrow> string" where
  "join_comma [] = []"
| "join_comma [s] = s"
| "join_comma (s # t # ss) = s @ '','' @ join_comma (t # ss)"

fun toString :: "jsval \<Rightarrow> string" where
  "toString JUndefined = ''undefined''"
| "toString JNull = ''null''"
| "toString (JBool b) = (if b then ''true'' else ''false'')"
| "toString (JNum n) = (if n < 0 then ''-'' @ digits (nat (- n)) else digits (nat n))"
| "toString (JStr s) = s"
| "toString (JArr xs) =
     join_comma (map (\<lambda>x. if x = JUndefined \<or> x = JNull then [] else toString x) xs)"
| "toString (JObj kvs) = ''[object Object]''"

text \<open>
  The loose comparison \<^verbatim>\<open>x == 'Organization'\<close>: a string compares by value, an object
  or array through its string conversion, a number or boolean through the number the
  string denotes (none), \<^verbatim>\<open>undefined\<close> and \<^verbatim>\<open>null\<close> never.
\<close>

fun eq_Organization :: "jsval \<Rightarrow> bool" where
  "eq_Organization (JStr s) = (s = ''Organization'')"
| "eq_Organization (JArr xs) = (toString (JArr xs) = ''Organization'')"
| "eq_Organization (JObj kvs) = (toString (JObj kvs) = ''Organization'')"
| "eq_Organization v = False"

text \<open>An optional access token argument: \<^verbatim>\<open>undefined\<close> or a string.\<close>

fun of_token :: "string option \<Rightarrow> jsval" where
  "of_token None = JUndefined"
| "of_token (Some s) = JStr s"

section \<open>lodash \<^verbatim>\<open>pick\<close>\<close>

text \<open>
  \<^verbatim>\<open>pick(object, paths)\<close> of lodash builds a new object holding, in the order of
  \<^verbatim>\<open>paths\<close>, each listed property that \<^verbatim>\<open>object\<close> has, with its value as it is;
  a property that \<^verbatim>\<open>object\<close> lacks is left out, and a value that is no object
  (\<^verbatim>\<open>null\<close>, \<^verbatim>\<open>undefined\<close>, a primitive) yields the empty object.
\<close>

fun pick :: "jsval \<Rightarrow> string list \<Rightarrow> (string \<times> jsval) list" where
  "pick (JObj kvs) paths =
     concat (map (\<lambda>k. case map_of kvs k of None \<Rightarrow> [] | Some v \<Rightarrow> [(k, v)]) paths)"
| "pick v paths = []"

section \<open>The cache\<close>

text \<open>
  Modelled from the spec: the Cache collaborator (\<^verbatim>\<open>./cache\<close>, imported by
  \<^verbatim>\<open>github.js\<close>) is a process-wide key-value store exposing \<^verbatim>\<open>get(key)\<close>
  (the value or \<^verbatim>\<open>undefined\<close>), \<^verbatim>\<open>set(key, value)\<close> and \<^verbatim>\<open>has(key)\<close>; its
  expiry of entries is the operation \<open>Expire\<close> of the traces below.
\<close>

type_synonym cache = "string \<rightharpoonup> jsval"

definition cache_get :: "cache \<Rightarrow> string \<Rightarrow> jsval" where
  "cache_get c k = (case c k of None \<Rightarrow> JUndefined | Some v \<Rightarrow> v)"

definition cache_set :: "cache \<Rightarrow> string \<Rightarrow> jsval \<Rightarrow> cache" where
  "cache_set c k v = c(k \<mapsto> v)"

definition cache_has :: "cache \<Rightarrow> string \<Rightarrow> bool" where
  "cache_has c k = (c k \<noteq> None)"

section \<open>The environment and the world\<close>

text \<open>
  A remote request is either an operation of the provider's client (its path, its
  parameters, and the token the client was authenticated with, if any) or a plain GET.
\<close>

datatype request =
    ApiRequest string jsval "jsval option"
  | RawRequest string

text \<open>
  What surrounds one call: the provider's answer to each operation (the payload
  \<^verbatim>\<open>res.data\<close> or a rejection), the raw-content host's answer to each URL (status and
  body, or a rejection), \<^verbatim>\<open>process.env.GITHUB_GUEST_TOKEN\<close>, the draws of
  \<^verbatim>\<open>Math.random()\<close> (the draw made while the \<open>n\<close>-th request of the world is prepared;
  idealised as a real number), and the runtime's
  \<^verbatim>\<open>Buffer.from(x, 'base64').toString('utf8')\<close> (which throws on an \<^verbatim>\<open>x\<close> it cannot
  read).
\<close>

record env =
  api :: "string \<Rightarrow> jsval \<Rightarrow> jsval option \<Rightarrow> error + jsval"
  raw :: "string \<Rightarrow> error + (int \<times> string)"
  guest_token :: "string option"
  random :: "nat \<Rightarrow> real"
  base64_utf8 :: "jsval \<Rightarrow> error + string"

record world =
  cache :: cache
  requests :: "request list"

section \<open>\<^verbatim>\<open>github.js\<close>\<close>

definition baseRawUrl :: string where
  "baseRawUrl = ''https://raw.githubusercontent.com''"

text \<open>
  \<^verbatim>\<open>donatedTokens[Math.floor(Math.random() * donatedTokens.length)]\<close>; an index outside
  the array reads \<^verbatim>\<open>undefined\<close>.
\<close>

definition random_element :: "real \<Rightarrow> jsval list \<Rightarrow> jsval" where
  "random_element r xs =
     (let i = \<lfloor>r * real (length xs)\<rfloor>
      in if 0 \<le> i \<and> i < int (length xs) then xs ! nat i else JUndefined)"

text \<open>
  \<open>getOctokit\<close> returns the client; what matters of it is the token it was
  authenticated with (\<open>None\<close>: \<^verbatim>\<open>authenticate\<close> was not called). A cached pool that is a
  string has a length and characters; any other value that is no array is read as having
  no positive length (an object with a \<^verbatim>\<open>length\<close> property of its own is not modelled;
  \<open>pool_ok_run\<close> below shows that the pool entry is never anything but an array).
\<close>

definition getOctokit :: "env \<Rightarrow> string option \<Rightarrow> world \<Rightarrow> jsval option" where
  "getOctokit e accessToken w =
     (let t0 = of_token accessToken;
          t1 = (if \<not> truthy t0 then
                  (case js_or (cache_get (cache w) ''donatedTokens'') (JArr []) of
                     JArr donatedTokens \<Rightarrow>
                       if length donatedTokens > 0
                       then random_element (random e (length (requests w))) donatedTokens
                       else t0
                   | JStr s \<Rightarrow>
                       if length s > 0
                       then random_element (random e (length (requests w)))
                              (map (\<lambda>c. JStr [c]) s)
                       else t0
                   | _ \<Rightarrow> t0)
                else t0);
          t2 = (if \<not> truthy t1 then of_token (guest_token e) else t1)
      in if truthy t2 then Some t2 else None)"

text \<open>
  \<open>fetchWithOctokit\<close> resolves the client, issues the request and unwraps \<^verbatim>\<open>res.data\<close>;
  the logging of the remaining rate limit is left out.
\<close>

definition fetchWithOctokit ::
  "env \<Rightarrow> string \<Rightarrow> jsval \<Rightarrow> string option \<Rightarrow> world \<Rightarrow> (error + jsval) \<times> world" where
  "fetchWithOctokit e path params accessToken w =
     (let octokit = getOctokit e accessToken w
      in (api e path params octokit,
          w\<lparr>requests := requests w @ [ApiRequest path params octokit]\<rparr>))"

text \<open>\<^verbatim>\<open>.catch(silentError)\<close>: a rejection becomes \<^verbatim>\<open>undefined\<close>.\<close>

fun silentError :: "error + jsval \<Rightarrow> jsval" where
  "silentError (Inl err) = JUndefined"
| "silentError (Inr v) = v"

definition compactRepo :: "jsval \<Rightarrow> jsval" where
  "compactRepo repo =
     (let repo1 = pick repo [''id'', ''name'', ''owner'', ''full_name'', ''default_branch'',
                             ''private'', ''language'']
      in JObj (assign repo1 ''owner'' (JObj (pick (get_field repo1 ''owner'') [''login'']))))"

definition fetchProfile ::
  "env \<Rightarrow> string \<Rightarrow> string option \<Rightarrow> world \<Rightarrow> (error + jsval) \<times> world" where
  "fetchProfile e login accessToken w =
     (let cacheKey = ''profile_'' @ login;
          profile = cache_get (cache w) cacheKey
      in if truthy profile then (Inr profile, w)
         else
           let (r1, w1) = fetchWithOctokit e ''users.getForUser''
                            (JObj [(''username'', JStr login)]) accessToken w;
               user = silentError r1
           in if truthy user \<and> get_prop user ''type'' \<noteq> Inr (JStr ''Organization'')
              then (Inr user, w1\<lparr>cache := cache_set (cache w1) cacheKey user\<rparr>)
              else
                let (r2, w2) = fetchWithOctokit e ''orgs.get''
                                 (JObj [(''org'', JStr login)]) accessToken w1;
                    org = silentError r2
                in if truthy org
                   then (Inr org, w2\<lparr>cache := cache_set (cache w2) cacheKey org\<rparr>)
                   else (Inr JNull, w2))"

text \<open>
  The spread \<^verbatim>\<open>[...repos, ...fetchRepos]\<close> and \<^verbatim>\<open>fetchRepos.length\<close>: an array gives
  its elements, a string its characters, anything else is not iterable.
\<close>

fun spread :: "jsval \<Rightarrow> error + jsval list" where
  "spread (JArr xs) = Inr xs"
| "spread (JStr s) = Inr (map (\<lambda>c. JStr [c]) s)"
| "spread v = Inl TypeError"

definition per_page :: nat where
  "per_page = 100"

text \<open>
  The pagination loop of \<open>fetchReposForProfile\<close>: \<open>page\<close> and \<open>repos\<close> are the loop's
  variables, \<open>params\<close> the parameters set before it. The loop has no bound of its own:
  \<open>None\<close> is the run that never leaves it.
\<close>

partial_function (option) fetchReposLoop ::
  "env \<Rightarrow> string \<Rightarrow> (string \<times> jsval) list \<Rightarrow> string option \<Rightarrow> nat \<Rightarrow> jsval list \<Rightarrow> world
     \<Rightarrow> ((error + jsval list) \<times> world) option" where
  "fetchReposLoop e path params accessToken page repos w =
     (case fetchWithOctokit e path
             (JObj (params @ [(''page'', JNum (int page)), (''per_page'', JNum (int per_page))]))
             accessToken w of
        (Inl err, w') \<Rightarrow> Some (Inl err, w')
      | (Inr data, w') \<Rightarrow>
          (case spread data of
             Inl err \<Rightarrow> Some (Inl err, w')
           | Inr fetchRepos \<Rightarrow>
               if length fetchRepos < per_page
               then Some (Inr (repos @ fetchRepos), w')
               else fetchReposLoop e path params accessToken (page + 1) (repos @ fetchRepos) w'))"

text \<open>\<^verbatim>\<open>repos.filter(repo => repo.k === false)\<close>; reading \<^verbatim>\<open>k\<close> may throw.\<close>

fun filter_false :: "string \<Rightarrow> jsval list \<Rightarrow> error + jsval list" where
  "filter_false k [] = Inr []"
| "filter_false k (repo # rs) =
     (case get_prop repo k of
        Inl err \<Rightarrow> Inl err
      | Inr v \<Rightarrow>
          (case filter_false k rs of
             Inl err \<Rightarrow> Inl err
           | Inr rs' \<Rightarrow> Inr (if v = JBool False then repo # rs' else rs')))"

definition truthy_token :: "string option \<Rightarrow> bool" where
  "truthy_token accessToken = truthy (of_token accessToken)"

definition publicCacheKey :: "jsval \<Rightarrow> string" where
  "publicCacheKey login = ''profile_repos_'' @ toString login"

definition privateCacheKey :: "jsval \<Rightarrow> string option \<Rightarrow> string" where
  "privateCacheKey login accessToken =
     ''profile_repos_'' @ toString login @ ''_'' @ toString (of_token accessToken)"

definition fetchReposForProfile ::
  "env \<Rightarrow> jsval \<Rightarrow> string option \<Rightarrow> world \<Rightarrow> ((error + jsval) \<times> world) option" where
  "fetchReposForProfile e profile accessToken w =
     (case get_prop profile ''login'' of
        Inl err \<Rightarrow> Some (Inl err, w)
      | Inr login \<Rightarrow>
          if truthy_token accessToken \<and> cache_has (cache w) (privateCacheKey login accessToken)
          then Some (Inr (cache_get (cache w) (privateCacheKey login accessToken)), w)
          else if \<not> truthy_token accessToken \<and> cache_has (cache w) (publicCacheKey login)
          then Some (Inr (cache_get (cache w) (publicCacheKey login)), w)
          else
            let (getReposPath, getReposParameters) =
                  (if (case get_prop profile ''type'' of Inl err \<Rightarrow> False
                                                      | Inr t \<Rightarrow> eq_Organization t)
                   then (''repos.getForOrg'', [(''org'', login)])
                   else (''repos.getForUser'', [(''username'', login)]))
            in (case fetchReposLoop e getReposPath getReposParameters accessToken 1 [] w of
                  None \<Rightarrow> None
                | Some (Inl err, w1) \<Rightarrow> Some (Inl err, w1)
                | Some (Inr fetched, w1) \<Rightarrow>
                    (case filter_false ''fork'' fetched of
                       Inl err \<Rightarrow> Some (Inl err, w1)
                     | Inr nonForks \<Rightarrow>
                         let repos = map compactRepo nonForks;
                             w2 = w1\<lparr>cache := cache_set (cache w1)
                                                     (privateCacheKey login accessToken)
                                                     (JArr repos)\<rparr>
                         in (case filter_false ''private'' repos of
                               Inl err \<Rightarrow> Some (Inl err, w2)
                             | Inr publicRepos \<Rightarrow>
                                 let w3 = w2\<lparr>cache := cache_set (cache w2) (publicCacheKey login)
                                                         (JArr publicRepos)\<rparr>
                                 in Some (Inr (JArr (if truthy_token accessToken
                                                     then repos else publicRepos)), w3)))))"

text \<open>\<open>getContent\<close> reads \<^verbatim>\<open>data.content\<close> and hands it to the runtime's decoder.\<close>

definition getContent :: "env \<Rightarrow> jsval \<Rightarrow> error + string" where
  "getContent e data =
     (case get_prop data ''content'' of
        Inl err \<Rightarrow> Inl err
      | Inr content \<Rightarrow> base64_utf8 e content)"

definition relativeUrl :: "jsval \<Rightarrow> jsval \<Rightarrow> string \<Rightarrow> string" where
  "relativeUrl full_name default_branch path =
     ''/'' @ toString full_name @ ''/'' @ toString default_branch @ ''/'' @ path"

definition cant_fetch :: "string \<Rightarrow> string \<Rightarrow> string" where
  "cant_fetch path rel = ''Can'' @ [CHR 0x27] @ ''t fetch '' @ path @ '' from '' @ rel @ ''.''"

definition fetchFileFromRepo ::
  "env \<Rightarrow> jsval \<Rightarrow> string \<Rightarrow> string option \<Rightarrow> world \<Rightarrow> (error + string) \<times> world" where
  "fetchFileFromRepo e repo path accessToken w =
     (case get_prop repo ''full_name'' of
        Inl err \<Rightarrow> (Inl err, w)
      | Inr full_name \<Rightarrow>
     (case get_prop repo ''default_branch'' of
        Inl err \<Rightarrow> (Inl err, w)
      | Inr default_branch \<Rightarrow>
     (case get_prop repo ''private'' of
        Inl err \<Rightarrow> (Inl err, w)
      | Inr private \<Rightarrow>
          if \<not> truthy default_branch \<or> private = JBool True
          then
            (case get_prop repo ''owner'' of
               Inl err \<Rightarrow> (Inl err, w)
             | Inr owner \<Rightarrow>
            (case get_prop owner ''login'' of
               Inl err \<Rightarrow> (Inl err, w)
             | Inr login \<Rightarrow>
            (case get_prop repo ''name'' of
               Inl err \<Rightarrow> (Inl err, w)
             | Inr name \<Rightarrow>
                 let params = JObj [(''owner'', login), (''repo'', name), (''path'', JStr path)];
                     (r, w') = fetchWithOctokit e ''repos.getContent'' params accessToken w
                 in (case r of
                       Inl err \<Rightarrow> (Inl err, w')
                     | Inr data \<Rightarrow> (getContent e data, w')))))
          else
            let rel = relativeUrl full_name default_branch path;
                url = baseRawUrl @ rel;
                w' = w\<lparr>requests := requests w @ [RawRequest url]\<rparr>
            in (case raw e url of
                  Inl err \<Rightarrow> (Inl err, w')
                | Inr (status, body) \<Rightarrow>
                    if status = 200 then (Inr body, w')
                    else (Inl (Error (cant_fetch path rel)), w')))))"

text \<open>
  \<open>donateToken\<close>: \<^verbatim>\<open>indexOf\<close> compares by strict equality, which on the token (a string
  or \<^verbatim>\<open>undefined\<close>) is equality of values. On a cached string \<^verbatim>\<open>indexOf\<close> searches a
  substring and \<^verbatim>\<open>push\<close> does not exist; any other value that is no array has no
  \<^verbatim>\<open>indexOf\<close>.
\<close>

definition donateToken :: "string option \<Rightarrow> world \<Rightarrow> (error + unit) \<times> world" where
  "donateToken accessToken w =
     (case js_or (cache_get (cache w) ''donatedTokens'') (JArr []) of
        JArr donatedTokens \<Rightarrow>
          if of_token accessToken \<notin> set donatedTokens
          then (Inr (), w\<lparr>cache := cache_set (cache w) ''donatedTokens''
                                     (JArr (donatedTokens @ [of_token accessToken]))\<rparr>)
          else (Inr (), w)
      | JStr s \<Rightarrow>
          if \<not> sublist (toString (of_token accessToken)) s then (Inl TypeError, w)
          else (Inr (), w)
      | _ \<Rightarrow> (Inl TypeError, w))"

section \<open>Sequences of calls\<close>

text \<open>
  The calls of the module that a process makes, one after the other, each with the
  environment it meets, and the expiry of a cache entry. A call of \<open>fetchReposForProfile\<close>
  writes the cache only after its last remote request, in one go, so a call that overlaps
  others acts on the cache like the call made at the moment it writes, after the expiry of
  the entry it found missing. A call that never leaves its loop writes nothing.
\<close>

datatype op =
    FetchProfile env string "string option"
  | FetchRepos env jsval "string option"
  | FetchFile env jsval string "string option"
  | DonateToken "string option"
  | Expire string

fun step :: "world \<Rightarrow> op \<Rightarrow> world" where
  "step w (FetchProfile e login accessToken) = snd (fetchProfile e login accessToken w)"
| "step w (FetchRepos e profile accessToken) =
     (case fetchReposForProfile e profile accessToken w of None \<Rightarrow> w | Some (r, w') \<Rightarrow> w')"
| "step w (FetchFile e repo path accessToken) = snd (fetchFileFromRepo e repo path accessToken w)"
| "step w (DonateToken accessToken) = snd (donateToken accessToken w)"
| "step w (Expire k) = w\<lparr>cache := (cache w)(k := None)\<rparr>"

definition start :: world where
  "start = \<lparr>cache = Map.empty, requests = []\<rparr>"

definition run :: "op list \<Rightarrow> world" where
  "run ops = foldl step start ops"

section \<open>Notions used by the properties\<close>

text \<open>The own property \<open>k\<close> of a value, if it is an object that has one.\<close>

fun own :: "jsval \<Rightarrow> string \<Rightarrow> jsval option" where
  "own (JObj kvs) k = map_of kvs k"
| "own v k = None"

text \<open>
  The invariant the specification states for a compact repository: \<^verbatim>\<open>owner.login\<close> is
  present and \<^verbatim>\<open>private\<close> is a boolean.
\<close>

definition spec_compact_invariant :: "jsval \<Rightarrow> bool" where
  "spec_compact_invariant c =
     ((case own c ''owner'' of Some ow \<Rightarrow> own ow ''login'' \<noteq> None | None \<Rightarrow> False)
      \<and> (case own c ''private'' of Some (JBool b) \<Rightarrow> True | _ \<Rightarrow> False))"

text \<open>The records that pass \<^verbatim>\<open>repo.fork === false\<close>, and those that pass \<^verbatim>\<open>repo.private === false\<close>.\<close>

definition non_forks :: "jsval list \<Rightarrow> jsval list" where
  "non_forks fetched = filter (\<lambda>r. get_prop r ''fork'' = Inr (JBool False)) fetched"

definition public_only :: "jsval list \<Rightarrow> jsval list" where
  "public_only repos = filter (\<lambda>r. get_prop r ''private'' = Inr (JBool False)) repos"

text \<open>The operation and parameters \<open>fetchReposForProfile\<close> chooses from the profile.\<close>

definition repos_route :: "jsval \<Rightarrow> jsval \<Rightarrow> string \<times> (string \<times> jsval) list" where
  "repos_route profile login =
     (if (case get_prop profile ''type'' of Inl err \<Rightarrow> False | Inr t \<Rightarrow> eq_Organization t)
      then (''repos.getForOrg'', [(''org'', login)])
      else (''repos.getForUser'', [(''username'', login)]))"

text \<open>The pool of donated tokens as \<open>getOctokit\<close> and \<open>donateToken\<close> read it.\<close>

definition donatedTokens :: "world \<Rightarrow> jsval list" where
  "donatedTokens w =
     (case js_or (cache_get (cache w) ''donatedTokens'') (JArr []) of JArr xs \<Rightarrow> xs | _ \<Rightarrow> [])"

text \<open>
  The pool entry of the cache is absent or an array without repetition: the invariant of
  \<open>donateToken\<close>.
\<close>

definition pool_ok :: "cache \<Rightarrow> bool" where
  "pool_ok c =
     (case c ''donatedTokens'' of None \<Rightarrow> True | Some (JArr xs) \<Rightarrow> distinct xs
      | Some _ \<Rightarrow> False)"






definition env_nobody :: env where
  "env_nobody = \<lparr>api = (\<lambda>path params octokit. Inl (Rejected ''Not Found'')),
               raw = (\<lambda>url. Inr (404, ''404: Not Found'')),
               guest_token = None,
               random = (\<lambda>n. 0),
               base64_utf8 = (\<lambda>x. Inl TypeError)\<rparr>"

definition env_files :: env where
  "env_files = \<lparr>api = (\<lambda>path params octokit.
                          if path = ''repos.getContent''
                          then Inr (JObj [(''content'', JStr ''aGVsbG8='')])
                          else Inl (Rejected ''Not Found'')),
               raw = (\<lambda>url. if url = ''https://raw.githubusercontent.com/o/r/master/package.json''
                           then Inr (200, ''{}'') else Inr (404, ''404: Not Found'')),
               guest_token = None,
               random = (\<lambda>n. 0),
               base64_utf8 = (\<lambda>x. if x = JStr ''aGVsbG8='' then Inr ''hello'' else Inl TypeError)\<rparr>"

definition repo_public :: jsval where
  "repo_public = compactRepo (JObj [(''id'', JNum 1), (''name'', JStr ''r''),
      (''owner'', JObj [(''login'', JStr ''o''), (''id'', JNum 7)]), (''full_name'', JStr ''o/r''),
      (''default_branch'', JStr ''master''), (''private'', JBool False), (''fork'', JBool False)])"

definition repo_private :: jsval where
  "repo_private = compactRepo (JObj [(''id'', JNum 2), (''name'', JStr ''s''),
      (''owner'', JObj [(''login'', JStr ''o''), (''id'', JNum 7)]), (''full_name'', JStr ''o/s''),
      (''default_branch'', JStr ''master''), (''private'', JBool True), (''fork'', JBool False)])"

text \<open>
  What a request asks of the provider's client, whichever token it carries; the
  parameters of the request for one page; a response that makes the loop go on.
\<close>

fun api_call :: "request \<Rightarrow> (string \<times> jsval) option" where
  "api_call (ApiRequest path params octokit) = Some (path, params)"
| "api_call (RawRequest url) = None"

definition page_params :: "(string \<times> jsval) list \<Rightarrow> nat \<Rightarrow> jsval" where
  "page_params params page =
     JObj (params @ [(''page'', JNum (int page)), (''per_page'', JNum 100)])"

definition full_page :: "error + jsval \<Rightarrow> bool" where
  "full_page r = (case r of Inl err \<Rightarrow> False
                  | Inr data \<Rightarrow> (case spread data of Inl err \<Rightarrow> False
                                            | Inr fetchRepos \<Rightarrow> per_page \<le> length fetchRepos))"

definition a_repo :: jsval where
  "a_repo = JObj [(''id'', JNum 1), (''name'', JStr ''r''),
      (''owner'', JObj [(''login'', JStr ''octocat'')]), (''full_name'', JStr ''octocat/r''),
      (''default_branch'', JStr ''master''), (''private'', JBool False), (''fork'', JBool False)]"

definition three_pages :: "nat \<Rightarrow> jsval list" where
  "three_pages p = (if p = 1 \<or> p = 2 then replicate 100 a_repo
                    else if p = 3 then replicate 37 a_repo else [])"

definition env_three_pages :: env where
  "env_three_pages = \<lparr>api = (\<lambda>path params octokit.
                          case get_prop params ''page'' of
                            Inr (JNum p) \<Rightarrow> Inr (JArr (three_pages (nat p)))
                          | _ \<Rightarrow> Inl (Rejected ''Bad Request'')),
               raw = (\<lambda>url. Inl (Rejected ''offline'')),
               guest_token = None,
               random = (\<lambda>n. 0),
               base64_utf8 = (\<lambda>x. Inl TypeError)\<rparr>"

text \<open>A provider's record whose own \<^verbatim>\<open>fork\<close> property is the boolean \<^verbatim>\<open>false\<close>.\<close>

definition is_non_fork :: "jsval \<Rightarrow> bool" where
  "is_non_fork r = (own r ''fork'' = Some (JBool False))"




text \<open>
  A call that writes no entry of another kind under the key \<open>k\<close>: its profile key
  \<^verbatim>\<open>profile_<login>\<close> and its private key \<^verbatim>\<open>profile_repos_<login>_<token>\<close> differ from
  \<open>k\<close>. The entry under \<open>k\<close> is then absent or a list of public repositories.
\<close>

fun writes_apart :: "string \<Rightarrow> op \<Rightarrow> bool" where
  "writes_apart k (FetchProfile e login accessToken) = (''profile_'' @ login \<noteq> k)"
| "writes_apart k (FetchRepos e profile accessToken) =
     (case get_prop profile ''login'' of
        Inl err \<Rightarrow> True
      | Inr login \<Rightarrow> privateCacheKey login accessToken \<noteq> k)"
| "writes_apart k p = True"


definition env_forks :: env where
  "env_forks = \<lparr>api = (\<lambda>path params octokit.
        Inr (JArr [a_repo,
                   JObj [(''id'', JNum 2), (''name'', JStr ''forked''), (''fork'', JBool True)],
                   JObj [(''id'', JNum 3), (''name'', JStr ''absent'')],
                   JObj [(''id'', JNum 4), (''name'', JStr ''null''), (''fork'', JNull)],
                   JObj [(''id'', JNum 5), (''name'', JStr ''zero''), (''fork'', JNum 0)],
                   JObj [(''id'', JNum 6), (''name'', JStr ''string''), (''fork'', JStr ''false'')]])),
               raw = (\<lambda>url. Inl (Rejected ''offline'')),
               guest_token = None,
               random = (\<lambda>n. 0),
               base64_utf8 = (\<lambda>x. Inl TypeError)\<rparr>"

definition octocat :: jsval where
  "octocat = JObj [(''login'', JStr ''octocat''), (''type'', JStr ''User'')]"





section \<open>Objects and \<open>compactRepo\<close>\<close>

lemma map_of_assign: "map_of (assign kvs k v) k' = (if k' = k then Some v else map_of kvs k')"
  by (induction kvs) auto

lemma map_of_pick: "map_of (pick r ps) k = (if k \<in> set ps then own r k else None)"
proof (cases r)
  case (JObj kvs)
  have "map_of (concat (map (\<lambda>k. case map_of kvs k of None \<Rightarrow> [] | Some v \<Rightarrow> [(k, v)]) ps)) k
        = (if k \<in> set ps then map_of kvs k else None)"
    by (induction ps) (auto split: option.splits)
  with JObj show ?thesis by simp
qed simp_all

lemma own_get_field:
  "own (get_field kvs k) k' = (case map_of kvs k of None \<Rightarrow> None | Some v \<Rightarrow> own v k')"
  by (simp add: get_field_def split: option.splits)

lemma compactRepo_JObj: "\<exists>kvs. compactRepo r = JObj kvs"
  by (simp add: compactRepo_def Let_def)

lemma get_prop_compactRepo: "get_prop (compactRepo r) k \<noteq> Inl TypeError"
  using compactRepo_JObj [of r] by auto

text \<open>
  C2 (as amended). \<open>compactRepo\<close> copies: the compact record has \<^verbatim>\<open>private\<close> exactly when
  the provider's record has it, with the same value, whatever that value is; it always has
  an \<^verbatim>\<open>owner\<close> object, whose \<^verbatim>\<open>login\<close> is that of the record's owner, present
  exactly when the record's owner has one. So the compact record has \<^verbatim>\<open>owner.login\<close> and a
  boolean \<^verbatim>\<open>private\<close> if and only if the provider's record has them.
\<close>

theorem compactRepo_copies:
  "own (compactRepo r) ''private'' = own r ''private''
   \<and> (\<exists>okvs. own (compactRepo r) ''owner'' = Some (JObj okvs)
        \<and> map_of okvs ''login''
            = (case own r ''owner'' of None \<Rightarrow> None | Some ow \<Rightarrow> own ow ''login''))
   \<and> (spec_compact_invariant (compactRepo r) \<longleftrightarrow> spec_compact_invariant r)"
proof -
  let ?ps = "[''id'', ''name'', ''owner'', ''full_name'', ''default_branch'', ''private'',
              ''language'']"
  let ?o = "pick (get_field (pick r ?ps) ''owner'') [''login'']"
  have c: "compactRepo r = JObj (assign (pick r ?ps) ''owner'' (JObj ?o))"
    by (simp add: compactRepo_def Let_def)
  have p: "own (compactRepo r) ''private'' = own r ''private''"
    unfolding c by (simp add: map_of_assign map_of_pick)
  have ow: "own (compactRepo r) ''owner'' = Some (JObj ?o)"
    unfolding c by (simp add: map_of_assign)
  have lg: "map_of ?o ''login''
            = (case own r ''owner'' of None \<Rightarrow> None | Some ow \<Rightarrow> own ow ''login'')"
    by (simp add: map_of_pick own_get_field)
  have inv: "spec_compact_invariant (compactRepo r) \<longleftrightarrow> spec_compact_invariant r"
    unfolding spec_compact_invariant_def p ow using lg by (simp split: option.splits)
  from p ow lg inv show ?thesis by blast
qed

theorem compactRepo_copies_witness:
  "spec_compact_invariant
     (compactRepo (JObj [(''owner'', JObj [(''login'', JStr ''octocat''), (''id'', JNum 1)]),
                         (''private'', JBool False), (''fork'', JBool False)]))"
  using compactRepo_copies
    [of "JObj [(''owner'', JObj [(''login'', JStr ''octocat''), (''id'', JNum 1)]),
               (''private'', JBool False), (''fork'', JBool False)]"]
  by (simp add: spec_compact_invariant_def)

text \<open>
  C2 (as stated) fails: a record that lacks \<^verbatim>\<open>private\<close> and \<^verbatim>\<open>owner\<close> is compacted to
  \<^verbatim>\<open>{ id, name, owner: {} }\<close>, with no \<^verbatim>\<open>private\<close> and no \<^verbatim>\<open>owner.login\<close>.
\<close>

theorem compactRepo_invariant_counterexample:
  "\<not> spec_compact_invariant (compactRepo (JObj [(''id'', JNum 1), (''name'', JStr ''r'')]))"
  by (simp add: spec_compact_invariant_def compactRepo_def get_field_def)

section \<open>What a call does to the cache\<close>

lemma fst_fetchWithOctokit [simp]:
  "fst (fetchWithOctokit e p ps t w) = api e p ps (getOctokit e t w)"
  by (simp add: fetchWithOctokit_def Let_def)

lemma snd_fetchWithOctokit [simp]:
  "snd (fetchWithOctokit e p ps t w)
   = w\<lparr>requests := requests w @ [ApiRequest p ps (getOctokit e t w)]\<rparr>"
  by (simp add: fetchWithOctokit_def Let_def)

lemma fetchReposLoop_cache:
  assumes "fetchReposLoop e path ps t page repos w = Some y"
  shows "cache (snd y) = cache w"
proof (rule fetchReposLoop.raw_induct
    [where P = "\<lambda>e path ps t page repos w y. cache (snd y) = cache w", OF _ assms])
  fix loop :: "env \<Rightarrow> string \<Rightarrow> (string \<times> jsval) list \<Rightarrow> string option \<Rightarrow> nat \<Rightarrow> jsval list
      \<Rightarrow> world \<Rightarrow> ((error + jsval list) \<times> world) option"
  fix e path ps t page repos w y
  assume ih: "\<And>e path ps t page repos w y.
      loop e path ps t page repos w = Some y \<Longrightarrow> cache (snd y) = cache w"
  let ?f = "fetchWithOctokit e path
              (JObj (ps @ [(''page'', JNum (int page)), (''per_page'', JNum (int per_page))])) t w"
  assume "(case ?f of
      (Inl err, w') \<Rightarrow> Some (Inl err, w')
    | (Inr data, w') \<Rightarrow>
        (case spread data of
           Inl err \<Rightarrow> Some (Inl err, w')
         | Inr fetchRepos \<Rightarrow>
             if length fetchRepos < per_page then Some (Inr (repos @ fetchRepos), w')
             else loop e path ps t (page + 1) (repos @ fetchRepos) w')) = Some y"
  then have "cache (snd y) = cache (snd ?f)
      \<or> (\<exists>fetched. loop e path ps t (page + 1) (repos @ fetched) (snd ?f) = Some y)"
    by (cases ?f) (auto split: sum.splits if_splits)
  moreover have "cache (snd ?f) = cache w" by simp
  ultimately show "cache (snd y) = cache w" using ih by fastforce
qed

lemma fetchFileFromRepo_cache: "cache (snd (fetchFileFromRepo e r p t w)) = cache w"
  by (simp add: fetchFileFromRepo_def Let_def split_beta split: sum.splits)


lemma get_prop_Inl: "get_prop v k = Inl err \<longleftrightarrow> (v = JUndefined \<or> v = JNull) \<and> err = TypeError"
  by (cases v) auto

lemma filter_false_Inr:
  "filter_false k xs = Inr ys \<Longrightarrow> ys = filter (\<lambda>r. get_prop r k = Inr (JBool False)) xs"
  by (induction xs arbitrary: ys) (auto split: sum.splits)

lemma filter_false_objects:
  "\<forall>x\<in>set xs. get_prop x k \<noteq> Inl TypeError
   \<Longrightarrow> filter_false k xs = Inr (filter (\<lambda>r. get_prop r k = Inr (JBool False)) xs)"
  by (induction xs) (auto split: sum.splits simp: get_prop_Inl)

lemma fetchReposForProfile_cases:
  assumes "fetchReposForProfile e p t w = Some (r, w')"
  shows "(\<exists>err. r = Inl err \<and> cache w' = cache w)
    \<or> (\<exists>login k v. get_prop p ''login'' = Inr login
          \<and> k = (if truthy_token t then privateCacheKey login t else publicCacheKey login)
          \<and> cache w k = Some v \<and> r = Inr v \<and> w' = w)
    \<or> (\<exists>login path ps fetched w1. get_prop p ''login'' = Inr login
          \<and> cache w (if truthy_token t then privateCacheKey login t else publicCacheKey login) = None
          \<and> (path, ps) = repos_route p login
          \<and> fetchReposLoop e path ps t 1 [] w = Some (Inr fetched, w1)
          \<and> filter_false ''fork'' fetched = Inr (non_forks fetched)
          \<and> r = Inr (JArr (if truthy_token t then map compactRepo (non_forks fetched)
                            else public_only (map compactRepo (non_forks fetched))))
          \<and> w' = w1\<lparr>cache := (cache w)
                 (privateCacheKey login t \<mapsto> JArr (map compactRepo (non_forks fetched)),
                  publicCacheKey login \<mapsto> JArr (public_only (map compactRepo (non_forks fetched))))\<rparr>)"
proof (cases "get_prop p ''login''")
  case (Inl err)
  with assms have "r = Inl err \<and> w' = w" by (auto simp: fetchReposForProfile_def)
  then show ?thesis by blast
next
  case (Inr login)
  let ?k = "if truthy_token t then privateCacheKey login t else publicCacheKey login"
  show ?thesis
  proof (cases "cache w ?k")
    case (Some v)
    with assms Inr have "r = Inr v \<and> w' = w"
      by (auto simp: fetchReposForProfile_def cache_has_def cache_get_def split: if_splits)
    with Inr Some show ?thesis by blast
  next
    case None
    obtain path ps where pp: "(path, ps) =
        (if (case get_prop p ''type'' of Inl err \<Rightarrow> False | Inr t \<Rightarrow> eq_Organization t)
         then (''repos.getForOrg'', [(''org'', login)])
         else (''repos.getForUser'', [(''username'', login)]))"
      by (metis surj_pair)
    from None have miss: "\<not> (truthy_token t \<and> cache_has (cache w) (privateCacheKey login t))"
      "\<not> (\<not> truthy_token t \<and> cache_has (cache w) (publicCacheKey login))"
      by (auto simp: cache_has_def split: if_splits)
    from assms Inr miss pp [symmetric]
    have body: "(case fetchReposLoop e path ps t 1 [] w of
                  None \<Rightarrow> None
                | Some (Inl err, w1) \<Rightarrow> Some (Inl err, w1)
                | Some (Inr fetched, w1) \<Rightarrow>
                    (case filter_false ''fork'' fetched of
                       Inl err \<Rightarrow> Some (Inl err, w1)
                     | Inr nonForks \<Rightarrow>
                         let repos = map compactRepo nonForks;
                             w2 = w1\<lparr>cache := cache_set (cache w1)
                                                     (privateCacheKey login t)
                                                     (JArr repos)\<rparr>
                         in (case filter_false ''private'' repos of
                               Inl err \<Rightarrow> Some (Inl err, w2)
                             | Inr publicRepos \<Rightarrow>
                                 let w3 = w2\<lparr>cache := cache_set (cache w2) (publicCacheKey login)
                                                         (JArr publicRepos)\<rparr>
                                 in Some (Inr (JArr (if truthy_token t
                                                     then repos else publicRepos)), w3)))) = Some (r, w')"
      unfolding fetchReposForProfile_def by (simp del: filter_false.simps)
    then obtain lr w1 where loop: "fetchReposLoop e path ps t 1 [] w = Some (lr, w1)"
      by (cases "fetchReposLoop e path ps t 1 [] w") auto
    from fetchReposLoop_cache [OF loop] have c1: "cache w1 = cache w" by simp
    show ?thesis
    proof (cases lr)
      case (Inl err)
      with body loop c1 show ?thesis by auto
    next
      case fetched: (Inr fetched)
      show ?thesis
      proof (cases "filter_false ''fork'' fetched")
        case (Inl err)
        with body loop c1 fetched show ?thesis by auto
      next
        case nf: (Inr nfs)
        then have nfs: "nfs = non_forks fetched"
          unfolding non_forks_def by (rule filter_false_Inr)
        have pub: "filter_false ''private'' (map compactRepo nfs)
                   = Inr (public_only (map compactRepo nfs))"
          unfolding public_only_def
          by (rule filter_false_objects) (auto simp: get_prop_compactRepo)
        from body loop fetched nf pub
        have "r = Inr (JArr (if truthy_token t then map compactRepo nfs
                            else public_only (map compactRepo nfs)))"
          and "w' = w1\<lparr>cache := (cache w1)
                 (privateCacheKey login t \<mapsto> JArr (map compactRepo nfs),
                  publicCacheKey login \<mapsto> JArr (public_only (map compactRepo nfs)))\<rparr>"
          by (auto simp: Let_def cache_set_def)
        with Inr None loop fetched nf nfs c1 pp show ?thesis
          unfolding repos_route_def by auto
      qed
    qed
  qed
qed


section \<open>Sequences of calls and the cache\<close>

lemma truthy_silentError: "truthy (silentError r) \<Longrightarrow> r = Inr (silentError r)"
  by (cases r) auto

lemma fetchProfile_writes:
  "cache (snd (fetchProfile e l t w)) = cache w
   \<or> (\<exists>path ps a v. api e path ps a = Inr v
        \<and> cache (snd (fetchProfile e l t w)) = (cache w)(''profile_'' @ l \<mapsto> v))"
proof -
  let ?a1 = "getOctokit e t w"
  let ?w1 = "w\<lparr>requests := requests w
               @ [ApiRequest ''users.getForUser'' (JObj [(''username'', JStr l)]) ?a1]\<rparr>"
  let ?r1 = "api e ''users.getForUser'' (JObj [(''username'', JStr l)]) ?a1"
  let ?r2 = "api e ''orgs.get'' (JObj [(''org'', JStr l)]) (getOctokit e t ?w1)"
  let ?c = "cache (snd (fetchProfile e l t w))"
  have "?c = cache w
      \<or> (truthy (silentError ?r1) \<and> ?c = (cache w)(''profile_'' @ l \<mapsto> silentError ?r1))
      \<or> (truthy (silentError ?r2) \<and> ?c = (cache w)(''profile_'' @ l \<mapsto> silentError ?r2))"
    unfolding fetchProfile_def Let_def cache_set_def split_beta by simp
  then show ?thesis
    using truthy_silentError [of ?r1] truthy_silentError [of ?r2] by metis
qed

lemma donateToken_writes:
  "cache (snd (donateToken t w)) = cache w
   \<or> (of_token t \<notin> set (donatedTokens w)
       \<and> (cache w ''donatedTokens'' = Some (JArr (donatedTokens w)) \<or> donatedTokens w = [])
       \<and> cache (snd (donateToken t w))
           = (cache w)(''donatedTokens'' \<mapsto> JArr (donatedTokens w @ [of_token t])))"
  unfolding donateToken_def donatedTokens_def
  by (auto simp: js_or_def cache_get_def cache_set_def split: jsval.splits option.splits)

lemma step_cases:
  "cache (step w op) = cache w
   \<or> (\<exists>e l t path ps a v. op = FetchProfile e l t \<and> api e path ps a = Inr v
         \<and> cache (step w op) = (cache w)(''profile_'' @ l \<mapsto> v))
   \<or> (\<exists>e p t login fetched. op = FetchRepos e p t \<and> get_prop p ''login'' = Inr login
         \<and> cache (step w op) = (cache w)
                 (privateCacheKey login t \<mapsto> JArr (map compactRepo (non_forks fetched)),
                  publicCacheKey login \<mapsto> JArr (public_only (map compactRepo (non_forks fetched)))))
   \<or> (\<exists>t. op = DonateToken t \<and> of_token t \<notin> set (donatedTokens w)
         \<and> (cache w ''donatedTokens'' = Some (JArr (donatedTokens w)) \<or> donatedTokens w = [])
         \<and> cache (step w op) = (cache w)(''donatedTokens'' \<mapsto> JArr (donatedTokens w @ [of_token t])))
   \<or> (\<exists>k. op = Expire k \<and> cache (step w op) = (cache w)(k := None))"
proof (cases op)
  case (FetchProfile e l t)
  with fetchProfile_writes [of e l t w] show ?thesis by auto
next
  case (FetchRepos e p t)
  show ?thesis
  proof (cases "fetchReposForProfile e p t w")
    case None
    with FetchRepos show ?thesis by simp
  next
    case (Some y)
    obtain r w' where y: "y = (r, w')" by (cases y)
    from fetchReposForProfile_cases [OF Some [unfolded y]] FetchRepos Some y
    show ?thesis by auto
  qed
next
  case (FetchFile e r p t)
  then show ?thesis by (simp add: fetchFileFromRepo_cache)
next
  case (DonateToken t)
  with donateToken_writes [of t w] show ?thesis by auto
next
  case (Expire k)
  then show ?thesis by simp
qed

lemma run_snoc: "run (ops @ [op]) = step (run ops) op"
  by (simp add: run_def)

lemma run_Nil: "cache (run []) = Map.empty"
  by (simp add: run_def start_def)

lemma run_invariant:
  assumes "P Map.empty"
    and "\<And>w op. op \<in> set ops \<Longrightarrow> P (cache w) \<Longrightarrow> P (cache (step w op))"
  shows "P (cache (run ops))"
  using assms(2)
proof (induction ops rule: rev_induct)
  case Nil
  show ?case by (simp add: run_Nil assms(1))
next
  case (snoc op ops)
  then show ?case by (simp add: run_snoc)
qed

lemma step_pool:
  "cache (step w op) ''donatedTokens'' = cache w ''donatedTokens''
   \<or> cache (step w op) ''donatedTokens'' = None
   \<or> (\<exists>t. of_token t \<notin> set (donatedTokens w)
         \<and> (cache w ''donatedTokens'' = Some (JArr (donatedTokens w)) \<or> donatedTokens w = [])
         \<and> cache (step w op) ''donatedTokens'' = Some (JArr (donatedTokens w @ [of_token t])))"
  using step_cases [of w op]
  by (auto simp: privateCacheKey_def publicCacheKey_def)

lemma pool_ok_step: "pool_ok (cache w) \<Longrightarrow> pool_ok (cache (step w op))"
  using step_pool [of w op]
  by (auto simp: pool_ok_def split: option.splits jsval.splits)

lemma pool_ok_run: "pool_ok (cache (run ops))"
proof (rule run_invariant)
  show "pool_ok Map.empty" by (simp add: pool_ok_def)
qed (rule pool_ok_step)



section \<open>The pool of donated tokens\<close>

lemma pool_read:
  "pool_ok (cache w) \<Longrightarrow> js_or (cache_get (cache w) ''donatedTokens'') (JArr []) = JArr (donatedTokens w)"
  by (auto simp: pool_ok_def donatedTokens_def js_or_def cache_get_def
      split: option.splits jsval.splits)

lemma pool_distinct: "pool_ok (cache w) \<Longrightarrow> distinct (donatedTokens w)"
  by (auto simp: pool_ok_def donatedTokens_def js_or_def cache_get_def
      split: option.splits jsval.splits)

lemma count_list_distinct: "distinct xs \<Longrightarrow> x \<in> set xs \<Longrightarrow> count_list xs x = 1"
  by (induction xs) (auto simp: count_list_0_iff)

lemma donateToken_pool:
  assumes "pool_ok (cache w)"
  shows "donateToken t w =
     (Inr (), if of_token t \<in> set (donatedTokens w) then w
              else w\<lparr>cache := cache_set (cache w) ''donatedTokens''
                                 (JArr (donatedTokens w @ [of_token t]))\<rparr>)"
  unfolding donateToken_def pool_read [OF assms] by simp

lemma donatedTokens_set:
  "donatedTokens (w\<lparr>cache := cache_set (cache w) ''donatedTokens'' (JArr xs)\<rparr>) = xs"
  by (simp add: donatedTokens_def cache_set_def cache_get_def js_or_def)

text \<open>
  C9. In every state the module can reach, \<open>donateToken\<close> succeeds and appends the token to
  the pool only when the pool does not hold that value yet, leaving the world as it is
  otherwise; so donating the same token twice changes nothing the second time, and the
  pool then holds the token exactly once.
\<close>

theorem donateToken_set_semantics:
  "donateToken t (run ops) =
     (Inr (), if of_token t \<in> set (donatedTokens (run ops)) then run ops
              else (run ops)\<lparr>cache := cache_set (cache (run ops)) ''donatedTokens''
                                 (JArr (donatedTokens (run ops) @ [of_token t]))\<rparr>)
   \<and> donatedTokens (snd (donateToken t (run ops)))
       = (if of_token t \<in> set (donatedTokens (run ops)) then donatedTokens (run ops)
          else donatedTokens (run ops) @ [of_token t])
   \<and> donateToken t (snd (donateToken t (run ops))) = (Inr (), snd (donateToken t (run ops)))
   \<and> count_list (donatedTokens (snd (donateToken t (snd (donateToken t (run ops))))))
        (of_token t) = 1"
proof -
  let ?w = "run ops"
  let ?w1 = "snd (donateToken t ?w)"
  have ok: "pool_ok (cache ?w)" by (rule pool_ok_run)
  have ok1: "pool_ok (cache ?w1)"
    using pool_ok_step [OF ok, of "DonateToken t"] by simp
  have first: "donateToken t ?w =
     (Inr (), if of_token t \<in> set (donatedTokens ?w) then ?w
              else ?w\<lparr>cache := cache_set (cache ?w) ''donatedTokens''
                                 (JArr (donatedTokens ?w @ [of_token t]))\<rparr>)"
    by (rule donateToken_pool [OF ok])
  have pool1: "donatedTokens ?w1
       = (if of_token t \<in> set (donatedTokens ?w) then donatedTokens ?w
          else donatedTokens ?w @ [of_token t])"
    unfolding first by (simp add: donatedTokens_set)
  then have mem: "of_token t \<in> set (donatedTokens ?w1)" by simp
  have second: "donateToken t ?w1 = (Inr (), ?w1)"
    unfolding donateToken_pool [OF ok1] using mem by simp
  have "count_list (donatedTokens ?w1) (of_token t) = 1"
    using pool_distinct [OF ok1] mem by (rule count_list_distinct)
  with first pool1 second show ?thesis by simp
qed

theorem donateToken_set_semantics_witness:
  "donatedTokens (snd (donateToken (Some ''t2'')
       (snd (donateToken (Some ''t2'') (run [DonateToken (Some ''t1'')])))))
   = [JStr ''t1'', JStr ''t2'']"
  using donateToken_set_semantics [of "Some ''t2''" "[DonateToken (Some ''t1'')]"]
  by (simp add: run_def start_def donateToken_def donatedTokens_def cache_get_def cache_set_def
      js_or_def)



section \<open>Credential resolution\<close>






section \<open>Resolving a profile\<close>

text \<open>
  C6. When the cache holds no profile for the login and the lookup as a user is rejected,
  \<open>fetchProfile\<close> drops that error and goes on to the lookup as an organization: it
  issues exactly two requests, \<^verbatim>\<open>users.getForUser\<close> and then \<^verbatim>\<open>orgs.get\<close>, and its
  result is decided by the second alone. If that is rejected too the result is the value
  \<^verbatim>\<open>null\<close>, not an error, and nothing is cached; if it yields an organization, that is
  cached and returned.
\<close>

theorem fetchProfile_fallback:
  assumes "\<not> truthy (cache_get (cache w) (''profile_'' @ login))"
    and "api e ''users.getForUser'' (JObj [(''username'', JStr login)]) (getOctokit e t w) = Inl err"
  shows "let w1 = w\<lparr>requests := requests w
                     @ [ApiRequest ''users.getForUser'' (JObj [(''username'', JStr login)])
                          (getOctokit e t w)]\<rparr>;
             w2 = w1\<lparr>requests := requests w1
                     @ [ApiRequest ''orgs.get'' (JObj [(''org'', JStr login)])
                          (getOctokit e t w1)]\<rparr>;
             org = api e ''orgs.get'' (JObj [(''org'', JStr login)]) (getOctokit e t w1)
         in fetchProfile e login t w =
              (case org of
                 Inl err2 \<Rightarrow> (Inr JNull, w2)
               | Inr v \<Rightarrow> if truthy v
                          then (Inr v, w2\<lparr>cache := cache_set (cache w2) (''profile_'' @ login) v\<rparr>)
                          else (Inr JNull, w2))"
  using assms
  by (simp add: fetchProfile_def Let_def split_beta fetchWithOctokit_def split: sum.splits)

theorem fetchProfile_fallback_witness:
  "fetchProfile env_nobody ''nobody'' None start =
     (Inr JNull,
      start\<lparr>requests := [ApiRequest ''users.getForUser'' (JObj [(''username'', JStr ''nobody'')]) None,
                          ApiRequest ''orgs.get'' (JObj [(''org'', JStr ''nobody'')]) None]\<rparr>)"
  using fetchProfile_fallback [of start "''nobody''" env_nobody None "Rejected ''Not Found''"]
  by (simp add: start_def env_nobody_def cache_get_def getOctokit_def js_or_def Let_def)


section \<open>Fetching a file\<close>

text \<open>
  C4. For a repository record (an object whose \<^verbatim>\<open>owner\<close> is an object, as every compact
  record is): when \<^verbatim>\<open>default_branch\<close> is falsy or \<^verbatim>\<open>private\<close> is \<^verbatim>\<open>true\<close>,
  \<open>fetchFileFromRepo\<close> issues the single request \<^verbatim>\<open>repos.getContent\<close> and returns the
  decoding of the payload's \<^verbatim>\<open>content\<close>; otherwise it issues the single GET of
  \<^verbatim>\<open>https://raw.githubusercontent.com/<full_name>/<default_branch>/<path>\<close> and no
  request of the provider's client.
\<close>

theorem fetchFileFromRepo_routing:
  assumes "repo = JObj kvs" and "get_field kvs ''owner'' = JObj okvs"
  shows "fetchFileFromRepo e repo path t w =
     (if \<not> truthy (get_field kvs ''default_branch'') \<or> get_field kvs ''private'' = JBool True
      then
        (case api e ''repos.getContent''
                (JObj [(''owner'', get_field okvs ''login''), (''repo'', get_field kvs ''name''),
                       (''path'', JStr path)])
                (getOctokit e t w) of
           Inl err \<Rightarrow> Inl err
         | Inr data \<Rightarrow>
             (case get_prop data ''content'' of
                Inl err \<Rightarrow> Inl err
              | Inr content \<Rightarrow> base64_utf8 e content),
         w\<lparr>requests := requests w
              @ [ApiRequest ''repos.getContent''
                   (JObj [(''owner'', get_field okvs ''login''), (''repo'', get_field kvs ''name''),
                          (''path'', JStr path)])
                   (getOctokit e t w)]\<rparr>)
      else
        (case raw e (''https://raw.githubusercontent.com'' @ ''/''
                     @ toString (get_field kvs ''full_name'') @ ''/''
                     @ toString (get_field kvs ''default_branch'') @ ''/'' @ path) of
           Inl err \<Rightarrow> Inl err
         | Inr (status, body) \<Rightarrow>
             if status = 200 then Inr body
             else Inl (Error (cant_fetch path
                                (''/'' @ toString (get_field kvs ''full_name'') @ ''/''
                                 @ toString (get_field kvs ''default_branch'') @ ''/'' @ path))),
         w\<lparr>requests := requests w
              @ [RawRequest (''https://raw.githubusercontent.com'' @ ''/''
                             @ toString (get_field kvs ''full_name'') @ ''/''
                             @ toString (get_field kvs ''default_branch'') @ ''/'' @ path)]\<rparr>))"
  using assms
  by (simp add: fetchFileFromRepo_def Let_def split_beta fetchWithOctokit_def getContent_def
      relativeUrl_def baseRawUrl_def split: sum.splits)

theorem fetchFileFromRepo_routing_witness:
  "fetchFileFromRepo env_files repo_private ''package.json'' (Some ''tok'') start =
     (Inr ''hello'',
      start\<lparr>requests := [ApiRequest ''repos.getContent''
                            (JObj [(''owner'', JStr ''o''), (''repo'', JStr ''s''),
                                   (''path'', JStr ''package.json'')])
                            (Some (JStr ''tok''))]\<rparr>)
   \<and> snd (fetchFileFromRepo env_files repo_public ''package.json'' (Some ''tok'') start) =
      start\<lparr>requests :=
               [RawRequest ''https://raw.githubusercontent.com/o/r/master/package.json'']\<rparr>"
proof -
  have priv: "repo_private = JObj [(''id'', JNum 2), (''name'', JStr ''s''),
      (''owner'', JObj [(''login'', JStr ''o'')]), (''full_name'', JStr ''o/s''),
      (''default_branch'', JStr ''master''), (''private'', JBool True)]"
    by (simp add: repo_private_def compactRepo_def get_field_def)
  have pub: "repo_public = JObj [(''id'', JNum 1), (''name'', JStr ''r''),
      (''owner'', JObj [(''login'', JStr ''o'')]), (''full_name'', JStr ''o/r''),
      (''default_branch'', JStr ''master''), (''private'', JBool False)]"
    by (simp add: repo_public_def compactRepo_def get_field_def)
  have a: "fetchFileFromRepo env_files repo_private ''package.json'' (Some ''tok'') start =
     (Inr ''hello'',
      start\<lparr>requests := [ApiRequest ''repos.getContent''
                            (JObj [(''owner'', JStr ''o''), (''repo'', JStr ''s''),
                                   (''path'', JStr ''package.json'')])
                            (Some (JStr ''tok''))]\<rparr>)"
    using fetchFileFromRepo_routing [OF priv, of "[(''login'', JStr ''o'')]" env_files
        "''package.json''" "Some ''tok''" start]
    by (simp add: get_field_def env_files_def start_def getOctokit_def)
  have b: "snd (fetchFileFromRepo env_files repo_public ''package.json'' (Some ''tok'') start) =
      start\<lparr>requests :=
               [RawRequest ''https://raw.githubusercontent.com/o/r/master/package.json'']\<rparr>"
    using fetchFileFromRepo_routing [OF pub, of "[(''login'', JStr ''o'')]" env_files
        "''package.json''" "Some ''tok''" start]
    by (simp add: get_field_def start_def env_files_def)
  from a b show ?thesis by simp
qed

text \<open>
  C5. On the public route (a truthy \<^verbatim>\<open>default_branch\<close>, \<^verbatim>\<open>private\<close> not \<^verbatim>\<open>true\<close>),
  whatever status and body the raw-content host answers with: status 200 returns the body;
  any other status fails with the error \<^verbatim>\<open>Can't fetch <path> from <relative url>.\<close>, the
  relative URL being the requested URL without its host. In both cases the one GET is the
  only request issued: nothing is retried and the provider's client is not called.
\<close>

theorem fetchFileFromRepo_public_failure:
  assumes "get_prop repo ''full_name'' = Inr full_name"
    and "get_prop repo ''default_branch'' = Inr default_branch"
    and "truthy default_branch"
    and "get_prop repo ''private'' \<noteq> Inr (JBool True)"
    and "rel = ''/'' @ toString full_name @ ''/'' @ toString default_branch @ ''/'' @ path"
    and "raw e (''https://raw.githubusercontent.com'' @ rel) = Inr (status, body)"
  shows "fetchFileFromRepo e repo path t w =
     (if status = 200 then Inr body
      else Inl (Error (''Can'' @ [CHR 0x27] @ ''t fetch '' @ path @ '' from '' @ rel @ ''.'')),
      w\<lparr>requests := requests w @ [RawRequest (''https://raw.githubusercontent.com'' @ rel)]\<rparr>)"
proof -
  from assms(1) obtain pv where pv: "get_prop repo ''private'' = Inr pv"
    by (cases repo) auto
  with assms(4) have "pv \<noteq> JBool True" by simp
  with assms pv show ?thesis
    by (simp add: fetchFileFromRepo_def Let_def relativeUrl_def baseRawUrl_def cant_fetch_def)
qed

theorem fetchFileFromRepo_public_failure_witness:
  "fetchFileFromRepo env_files repo_public ''yarn.lock'' None start =
     (Inl (Error (''Can'' @ [CHR 0x27] @ ''t fetch yarn.lock from /o/r/master/yarn.lock.'')),
      start\<lparr>requests := [RawRequest ''https://raw.githubusercontent.com/o/r/master/yarn.lock'']\<rparr>)
   \<and> fetchFileFromRepo env_files repo_public ''package.json'' None start =
     (Inr ''{}'',
      start\<lparr>requests := [RawRequest ''https://raw.githubusercontent.com/o/r/master/package.json'']\<rparr>)"
proof -
  have pub: "repo_public = JObj [(''id'', JNum 1), (''name'', JStr ''r''),
      (''owner'', JObj [(''login'', JStr ''o'')]), (''full_name'', JStr ''o/r''),
      (''default_branch'', JStr ''master''), (''private'', JBool False)]"
    by (simp add: repo_public_def compactRepo_def get_field_def)
  have p1: "get_prop repo_public ''full_name'' = Inr (JStr ''o/r'')"
    and p2: "get_prop repo_public ''default_branch'' = Inr (JStr ''master'')"
    and p3: "truthy (JStr ''master'')"
    and p4: "get_prop repo_public ''private'' \<noteq> Inr (JBool True)"
    by (simp_all add: pub get_field_def)
  have r1: "raw env_files (''https://raw.githubusercontent.com''
              @ ''/'' @ toString (JStr ''o/r'') @ ''/'' @ toString (JStr ''master'') @ ''/'' @ ''yarn.lock'')
            = Inr (404, ''404: Not Found'')"
    by (simp add: env_files_def)
  have r2: "raw env_files (''https://raw.githubusercontent.com''
              @ ''/'' @ toString (JStr ''o/r'') @ ''/'' @ toString (JStr ''master'') @ ''/'' @ ''package.json'')
            = Inr (200, ''{}'')"
    by (simp add: env_files_def)
  from fetchFileFromRepo_public_failure [OF p1 p2 p3 p4 refl r1, of None start]
       fetchFileFromRepo_public_failure [OF p1 p2 p3 p4 refl r2, of None start]
  show ?thesis by (simp add: start_def)
qed


section \<open>Pagination\<close>

lemma fetchReposLoop_pages:
  assumes "\<And>p a. page \<le> p \<Longrightarrow> p \<le> page + k
             \<Longrightarrow> api e path (page_params params p) a = Inr (JArr (pages p))"
    and "\<And>p. page \<le> p \<Longrightarrow> p < page + k \<Longrightarrow> per_page \<le> length (pages p)"
    and "length (pages (page + k)) < per_page"
  shows "\<exists>w'. fetchReposLoop e path params t page repos w
               = Some (Inr (repos @ concat (map pages [page..<Suc (page + k)])), w')
             \<and> cache w' = cache w
             \<and> take (length (requests w)) (requests w') = requests w
             \<and> map api_call (drop (length (requests w)) (requests w'))
                 = map (\<lambda>p. Some (path, page_params params p)) [page..<Suc (page + k)]"
  using assms
proof (induction k arbitrary: page repos w)
  case 0
  have "api e path (page_params params page) (getOctokit e t w) = Inr (JArr (pages page))"
    using 0(1) [of page] by simp
  moreover have "length (pages page) < per_page" using 0(3) by simp
  ultimately show ?case
    by (subst fetchReposLoop.simps)
       (simp add: fetchWithOctokit_def Let_def page_params_def per_page_def)
next
  case (Suc k)
  let ?w1 = "w\<lparr>requests := requests w
               @ [ApiRequest path (page_params params page) (getOctokit e t w)]\<rparr>"
  have a: "api e path (page_params params page) (getOctokit e t w) = Inr (JArr (pages page))"
    using Suc.prems(1) [of page] by simp
  have full: "\<not> length (pages page) < per_page"
    using Suc.prems(2) [of page] by simp
  have unfold: "fetchReposLoop e path params t page repos w
                = fetchReposLoop e path params t (Suc page) (repos @ pages page) ?w1"
    using a full
    by (subst fetchReposLoop.simps)
       (simp add: fetchWithOctokit_def Let_def page_params_def per_page_def)
  have "\<exists>w'. fetchReposLoop e path params t (Suc page) (repos @ pages page) ?w1
               = Some (Inr ((repos @ pages page) @ concat (map pages [Suc page..<Suc (Suc page + k)])), w')
             \<and> cache w' = cache ?w1
             \<and> take (length (requests ?w1)) (requests w') = requests ?w1
             \<and> map api_call (drop (length (requests ?w1)) (requests w'))
                 = map (\<lambda>p. Some (path, page_params params p)) [Suc page..<Suc (Suc page + k)]"
  proof (rule Suc.IH)
    fix p a assume "Suc page \<le> p" "p \<le> Suc page + k"
    then show "api e path (page_params params p) a = Inr (JArr (pages p))"
      using Suc.prems(1) [of p a] by simp
  next
    fix p assume "Suc page \<le> p" "p < Suc page + k"
    then show "per_page \<le> length (pages p)" using Suc.prems(2) [of p] by simp
  next
    show "length (pages (Suc page + k)) < per_page" using Suc.prems(3) by simp
  qed
  then obtain w' where w':
    "fetchReposLoop e path params t (Suc page) (repos @ pages page) ?w1
       = Some (Inr ((repos @ pages page) @ concat (map pages [Suc page..<Suc (Suc page + k)])), w')"
    "cache w' = cache ?w1"
    "take (length (requests ?w1)) (requests w') = requests ?w1"
    "map api_call (drop (length (requests ?w1)) (requests w'))
       = map (\<lambda>p. Some (path, page_params params p)) [Suc page..<Suc (Suc page + k)]"
    by blast
  have interval: "[page..<Suc (page + Suc k)] = page # [Suc page..<Suc (Suc page + k)]"
    by (simp add: upt_conv_Cons)
  from w'(3) have req: "requests w' = requests ?w1 @ drop (length (requests ?w1)) (requests w')"
    by (metis append_take_drop_id)
  have t: "take (length (requests w)) (requests w') = requests w"
    by (subst req) simp
  have d: "drop (length (requests w)) (requests w')
           = ApiRequest path (page_params params page) (getOctokit e t w)
             # drop (length (requests ?w1)) (requests w')"
    by (subst req) simp
  show ?case
    unfolding unfold interval using w'(1) w'(2) w'(4) t d by simp
qed


lemma fetchReposLoop_returns_after_a_page_not_full:
  assumes "fetchReposLoop e path params t page repos w = Some y"
  shows "\<exists>p a. page \<le> p \<and> \<not> full_page (api e path (page_params params p) a)"
proof (rule fetchReposLoop.raw_induct
    [where P = "\<lambda>e path params t page repos w y.
                  \<exists>p a. page \<le> p \<and> \<not> full_page (api e path (page_params params p) a)",
     OF _ assms])
  fix loop :: "env \<Rightarrow> string \<Rightarrow> (string \<times> jsval) list \<Rightarrow> string option \<Rightarrow> nat \<Rightarrow> jsval list
      \<Rightarrow> world \<Rightarrow> ((error + jsval list) \<times> world) option"
  fix e path params t page repos w y
  assume ih: "\<And>e path params t page repos w y.
      loop e path params t page repos w = Some y
      \<Longrightarrow> \<exists>p a. page \<le> p \<and> \<not> full_page (api e path (page_params params p) a)"
  let ?f = "fetchWithOctokit e path
              (JObj (params @ [(''page'', JNum (int page)), (''per_page'', JNum (int per_page))])) t w"
  assume "(case ?f of
      (Inl err, w') \<Rightarrow> Some (Inl err, w')
    | (Inr data, w') \<Rightarrow>
        (case spread data of
           Inl err \<Rightarrow> Some (Inl err, w')
         | Inr fetchRepos \<Rightarrow>
             if length fetchRepos < per_page then Some (Inr (repos @ fetchRepos), w')
             else loop e path params t (page + 1) (repos @ fetchRepos) w')) = Some y"
  then have "\<not> full_page (fst ?f)
      \<or> (\<exists>fetched. loop e path params t (page + 1) (repos @ fetched) (snd ?f) = Some y)"
    by (cases ?f) (auto simp: full_page_def split: sum.splits if_splits)
  then show "\<exists>p a. page \<le> p \<and> \<not> full_page (api e path (page_params params p) a)"
  proof
    assume "\<not> full_page (fst ?f)"
    then have "\<not> full_page (api e path (page_params params page) (getOctokit e t w))"
      by (simp add: page_params_def per_page_def)
    then show ?thesis by blast
  next
    assume "\<exists>fetched. loop e path params t (page + 1) (repos @ fetched) (snd ?f) = Some y"
    then obtain p a where "page + 1 \<le> p" "\<not> full_page (api e path (page_params params p) a)"
      using ih by blast
    then have "page \<le> p \<and> \<not> full_page (api e path (page_params params p) a)" by simp
    then show ?thesis by blast
  qed
qed

lemma fetchReposLoop_never_returns_while_pages_are_full:
  "(\<And>p a. full_page (api e path (page_params params p) a))
   \<Longrightarrow> fetchReposLoop e path params t page repos w = None"
  using fetchReposLoop_returns_after_a_page_not_full [of e path params t page repos w]
  by (cases "fetchReposLoop e path params t page repos w") auto

text \<open>
  C7. The loop asks for 100 items per page, starting at page 1. If page \<open>n\<close> is the first
  whose length is below 100, the pages before it being full, the loop returns after
  exactly the requests for pages 1 to \<open>n\<close>, in order, with the concatenation of these
  pages. (The lemmas above add that it returns only after a page that is not full.) With
  pages of 100, 100 and 37 items: three requests and 237 items.
\<close>

theorem pagination_by_shortfall:
  assumes "\<And>p a. 1 \<le> p \<Longrightarrow> p \<le> n
             \<Longrightarrow> api e path (page_params params p) a = Inr (JArr (pages p))"
    and "\<And>p. 1 \<le> p \<Longrightarrow> p < n \<Longrightarrow> per_page \<le> length (pages p)"
    and "length (pages n) < per_page"
    and "1 \<le> n"
  shows "\<exists>w'. fetchReposLoop e path params t 1 [] w
               = Some (Inr (concat (map pages [1..<Suc n])), w')
             \<and> take (length (requests w)) (requests w') = requests w
             \<and> map api_call (drop (length (requests w)) (requests w'))
                 = map (\<lambda>p. Some (path, page_params params p)) [1..<Suc n]
             \<and> per_page = 100"
proof -
  from assms(4) obtain k where k: "n = 1 + k"
    using le_Suc_ex by blast
  have "\<exists>w'. fetchReposLoop e path params t 1 [] w
               = Some (Inr ([] @ concat (map pages [1..<Suc (1 + k)])), w')
             \<and> cache w' = cache w
             \<and> take (length (requests w)) (requests w') = requests w
             \<and> map api_call (drop (length (requests w)) (requests w'))
                 = map (\<lambda>p. Some (path, page_params params p)) [1..<Suc (1 + k)]"
  proof (rule fetchReposLoop_pages)
    fix p a assume "1 \<le> p" "p \<le> 1 + k"
    then show "api e path (page_params params p) a = Inr (JArr (pages p))"
      using assms(1) k by simp
  next
    fix p assume "1 \<le> p" "p < 1 + k"
    then show "per_page \<le> length (pages p)" using assms(2) k by simp
  next
    show "length (pages (1 + k)) < per_page" using assms(3) k by simp
  qed
  then show ?thesis unfolding k by (auto simp: per_page_def)
qed

theorem pagination_by_shortfall_witness:
  "\<exists>fetched w'.
     fetchReposLoop env_three_pages ''repos.getForUser'' [(''username'', JStr ''octocat'')] None
       1 [] start = Some (Inr fetched, w')
     \<and> length fetched = 237
     \<and> map api_call (requests w')
         = [Some (''repos.getForUser'', page_params [(''username'', JStr ''octocat'')] 1),
            Some (''repos.getForUser'', page_params [(''username'', JStr ''octocat'')] 2),
            Some (''repos.getForUser'', page_params [(''username'', JStr ''octocat'')] 3)]"
proof -
  have a: "\<And>p a. 1 \<le> p \<Longrightarrow> p \<le> 3
     \<Longrightarrow> api env_three_pages ''repos.getForUser'' (page_params [(''username'', JStr ''octocat'')] p) a
          = Inr (JArr (three_pages p))"
    by (simp add: env_three_pages_def page_params_def get_field_def)
  have b: "\<And>p. 1 \<le> p \<Longrightarrow> p < 3 \<Longrightarrow> per_page \<le> length (three_pages p)"
    by (auto simp: three_pages_def per_page_def)
  have c: "length (three_pages 3) < per_page"
    by (simp add: three_pages_def per_page_def)
  have i: "[1..<Suc 3] = [1, 2, 3]"
    by (simp add: upt_rec)
  from pagination_by_shortfall [of 3 env_three_pages "''repos.getForUser''"
      "[(''username'', JStr ''octocat'')]" three_pages None start, OF a b c]
  show ?thesis
    unfolding i by (auto simp: start_def three_pages_def)
qed



section \<open>Listing repositories\<close>

lemma non_forks_own: "non_forks fetched = filter is_non_fork fetched"
proof -
  have "\<And>r. (get_prop r ''fork'' = Inr (JBool False)) = is_non_fork r"
    by (case_tac r) (auto simp: is_non_fork_def get_field_def split: option.splits)
  then show ?thesis by (simp add: non_forks_def)
qed

lemma keys_differ: "privateCacheKey login t \<noteq> publicCacheKey login"
  by (simp add: privateCacheKey_def publicCacheKey_def)

lemma fetchReposForProfile_miss:
  assumes "get_prop p ''login'' = Inr login"
    and "cache w (if truthy_token t then privateCacheKey login t else publicCacheKey login) = None"
    and "fetchReposForProfile e p t w = Some (Inr v, w')"
  shows "\<exists>fetched w1.
      fetchReposLoop e (fst (repos_route p login)) (snd (repos_route p login)) t 1 [] w
        = Some (Inr fetched, w1)
      \<and> v = JArr (if truthy_token t then map compactRepo (filter is_non_fork fetched)
                  else public_only (map compactRepo (filter is_non_fork fetched)))
      \<and> cache w' (privateCacheKey login t)
          = Some (JArr (map compactRepo (filter is_non_fork fetched)))
      \<and> cache w' (publicCacheKey login)
          = Some (JArr (public_only (map compactRepo (filter is_non_fork fetched))))"
proof -
  from fetchReposForProfile_cases [OF assms(3)] assms(1,2)
  obtain path ps fetched w1 where
    r: "(path, ps) = repos_route p login"
       "fetchReposLoop e path ps t 1 [] w = Some (Inr fetched, w1)"
       "v = JArr (if truthy_token t then map compactRepo (non_forks fetched)
                  else public_only (map compactRepo (non_forks fetched)))"
       "w' = w1\<lparr>cache := (cache w)
                 (privateCacheKey login t \<mapsto> JArr (map compactRepo (non_forks fetched)),
                  publicCacheKey login \<mapsto> JArr (public_only (map compactRepo (non_forks fetched))))\<rparr>"
    by auto
  from r(1) have "path = fst (repos_route p login)" "ps = snd (repos_route p login)"
    by (metis fst_conv, metis snd_conv)
  with r(2,3,4) keys_differ [of login t] show ?thesis
    unfolding non_forks_own by auto
qed


text \<open>
  C10. A call that finds no cached entry returns, and writes to both cache entries, the
  compact forms of exactly those fetched records whose own \<^verbatim>\<open>fork\<close> property is the
  boolean \<^verbatim>\<open>false\<close>: the private-keyed entry holds them all, the public-keyed entry
  and the answer to a call without token those among them with \<^verbatim>\<open>private === false\<close>.
  A record whose \<^verbatim>\<open>fork\<close> is absent, \<^verbatim>\<open>null\<close> or any other value is dropped.
\<close>

theorem fork_filter_is_exact:
  assumes "get_prop p ''login'' = Inr login"
    and "cache w (if truthy_token t then privateCacheKey login t else publicCacheKey login) = None"
    and "fetchReposForProfile e p t w = Some (Inr v, w')"
  shows "\<exists>fetched w1.
      fetchReposLoop e (fst (repos_route p login)) (snd (repos_route p login)) t 1 [] w
        = Some (Inr fetched, w1)
      \<and> v = JArr (if truthy_token t then map compactRepo (filter is_non_fork fetched)
                  else public_only (map compactRepo (filter is_non_fork fetched)))
      \<and> cache w' (privateCacheKey login t)
          = Some (JArr (map compactRepo (filter is_non_fork fetched)))
      \<and> cache w' (publicCacheKey login)
          = Some (JArr (public_only (map compactRepo (filter is_non_fork fetched))))"
  using assms by (rule fetchReposForProfile_miss)

theorem fork_filter_is_exact_witness:
  "\<exists>w'. fetchReposForProfile env_forks octocat (Some ''tok'') start
           = Some (Inr (JArr [compactRepo a_repo]), w')
        \<and> cache w' (privateCacheKey (JStr ''octocat'') (Some ''tok''))
           = Some (JArr [compactRepo a_repo])
        \<and> cache w' (publicCacheKey (JStr ''octocat'')) = Some (JArr [compactRepo a_repo])"
proof -
  let ?records = "[a_repo,
                   JObj [(''id'', JNum 2), (''name'', JStr ''forked''), (''fork'', JBool True)],
                   JObj [(''id'', JNum 3), (''name'', JStr ''absent'')],
                   JObj [(''id'', JNum 4), (''name'', JStr ''null''), (''fork'', JNull)],
                   JObj [(''id'', JNum 5), (''name'', JStr ''zero''), (''fork'', JNum 0)],
                   JObj [(''id'', JNum 6), (''name'', JStr ''string''), (''fork'', JStr ''false'')]]"
  have route: "repos_route octocat (JStr ''octocat'')
               = (''repos.getForUser'', [(''username'', JStr ''octocat'')])"
    by (simp add: repos_route_def octocat_def get_field_def)
  have loop: "\<exists>w1. fetchReposLoop env_forks ''repos.getForUser'' [(''username'', JStr ''octocat'')]
                 (Some ''tok'') 1 [] start = Some (Inr ?records, w1)"
    by (subst fetchReposLoop.simps)
       (simp add: fetchWithOctokit_def env_forks_def per_page_def Let_def)
  then obtain w1 where w1:
    "fetchReposLoop env_forks ''repos.getForUser'' [(''username'', JStr ''octocat'')]
       (Some ''tok'') 1 [] start = Some (Inr ?records, w1)" by blast
  have kept: "filter is_non_fork ?records = [a_repo]"
    by (simp add: is_non_fork_def a_repo_def)
  have pub: "public_only [compactRepo a_repo] = [compactRepo a_repo]"
    by (simp add: public_only_def a_repo_def compactRepo_def get_field_def)
  have login: "get_prop octocat ''login'' = Inr (JStr ''octocat'')"
    by (simp add: octocat_def get_field_def)
  have miss: "cache start (if truthy_token (Some ''tok'')
                           then privateCacheKey (JStr ''octocat'') (Some ''tok'')
                           else publicCacheKey (JStr ''octocat'')) = None"
    by (simp add: start_def)
  have "\<exists>v w'. fetchReposForProfile env_forks octocat (Some ''tok'') start = Some (Inr v, w')"
    using w1
    by (simp add: fetchReposForProfile_def octocat_def get_field_def truthy_token_def
        cache_has_def start_def a_repo_def compactRepo_def Let_def)
  then obtain v w' where call:
    "fetchReposForProfile env_forks octocat (Some ''tok'') start = Some (Inr v, w')" by blast
  from fork_filter_is_exact [OF login miss call] w1 route kept pub
  have "v = JArr [compactRepo a_repo]
      \<and> cache w' (privateCacheKey (JStr ''octocat'') (Some ''tok''))
           = Some (JArr [compactRepo a_repo])
      \<and> cache w' (publicCacheKey (JStr ''octocat'')) = Some (JArr [compactRepo a_repo])"
    by (auto simp: truthy_token_def)
  with call show ?thesis by blast
qed
















lemma no_underscore_writes_apart:
  assumes "CHR ''_'' \<notin> set (toString login)"
  shows "writes_apart (publicCacheKey login) (FetchRepos e p t)"
    and "CHR ''_'' \<notin> set l \<Longrightarrow> writes_apart (publicCacheKey login) (FetchProfile e l t)"
proof -
  have "toString x @ ''_'' @ y \<noteq> toString login" for x y
  proof
    assume "toString x @ ''_'' @ y = toString login"
    then have "CHR ''_'' \<in> set (toString login)" by (metis in_set_conv_decomp append_Cons)
    with assms show False by simp
  qed
  then show "writes_apart (publicCacheKey login) (FetchRepos e p t)"
    by (auto simp: publicCacheKey_def privateCacheKey_def split: sum.splits)
  show "CHR ''_'' \<notin> set l \<Longrightarrow> writes_apart (publicCacheKey login) (FetchProfile e l t)"
    by (auto simp: publicCacheKey_def)
qed










end
